theory Spec2Isabelle
  imports Complex_Main "HOL-Library.Word" "HOL-Library.Multiset" "HOL-Library.Log_Nat"
begin

unbundle bit_operations_syntax

section \<open>Dataset splitting (draugr/numpy_utilities/datasets/splitting.py)\<close>

subsection \<open>Splits, errors, Python slices\<close>

text \<open>The enum \<^verbatim>\<open>Split\<close> of the source.\<close>

datatype Split = Training | Validation | Testing

text \<open>The exceptions the modelled code can raise.\<close>

datatype py_error = NotImplementedError | KeyError | ValueError

text \<open>
  Python's \<^verbatim>\<open>xs[start:stop]\<close> on a list: a bound that is absent defaults to the
  start respectively the end of the list, a negative bound counts from the end,
  and every bound is clamped into \<open>0 .. len(xs)\<close>.
\<close>

definition slice_bound :: "nat \<Rightarrow> int \<Rightarrow> nat" where
  "slice_bound len i = (if i < 0 then nat (int len + i) else min len (nat i))"

definition py_slice :: "'a list \<Rightarrow> int option \<Rightarrow> int option \<Rightarrow> 'a list" where
  "py_slice xs start stop =
     (let lo = (case start of None \<Rightarrow> 0 | Some i \<Rightarrow> slice_bound (length xs) i);
          hi = (case stop of None \<Rightarrow> length xs | Some j \<Rightarrow> slice_bound (length xs) j)
      in take (hi - lo) (drop lo xs))"

subsection \<open>select\_split\<close>

text \<open>
  A dictionary whose iteration order matters is an association list with distinct keys.
  \<^verbatim>\<open>data[k].append(item)\<close> changes the entry of \<open>k\<close> in place.
\<close>

fun dict_append :: "('k \<times> 'a list) list \<Rightarrow> 'k \<Rightarrow> 'a \<Rightarrow> ('k \<times> 'a list) list" where
  "dict_append [] k x = []"
| "dict_append ((k', xs) # d) k x =
     (if k' = k then (k', xs @ [x]) # d else (k', xs) # dict_append d k x)"

text \<open>The inner loop \<^verbatim>\<open>for item in v[split]: data[k].append(item)\<close>.\<close>

fun append_items :: "('k \<times> 'a list) list \<Rightarrow> 'k \<Rightarrow> 'a list \<Rightarrow> ('k \<times> 'a list) list" where
  "append_items data k [] = data"
| "append_items data k (item # items) = append_items (dict_append data k item) k items"

text \<open>
  The outer loop \<^verbatim>\<open>for k, v in data_cat_split.items()\<close>; \<^verbatim>\<open>v[split]\<close> raises
  \<^verbatim>\<open>KeyError\<close> when the inner dictionary has no entry for the split.
\<close>

fun select_split_loop ::
  "('k \<times> (Split \<rightharpoonup> 'a list)) list \<Rightarrow> Split \<Rightarrow> ('k \<times> 'a list) list
     \<Rightarrow> py_error + ('k \<times> 'a list) list" where
  "select_split_loop [] split data = Inr data"
| "select_split_loop ((k, v) # rest) split data =
     (case v split of
        None \<Rightarrow> Inl KeyError
      | Some items \<Rightarrow> select_split_loop rest split (append_items data k items))"

definition select_split ::
  "('k \<times> (Split \<rightharpoonup> 'a list)) list \<Rightarrow> Split \<Rightarrow> py_error + ('k \<times> 'a list) list" where
  "select_split data_cat_split split =
     select_split_loop data_cat_split split (map (\<lambda>k. (k, [])) (map fst data_cat_split))"

subsection \<open>IEEE 754 binary64 arithmetic\<close>

text \<open>
  Python's \<^verbatim>\<open>float\<close> and numpy's \<^verbatim>\<open>float64\<close>. A finite value is kept as the rational
  number it denotes (the two signed zeros are identified: no modelled operation
  tells them apart), next to the two infinities and NaN.
\<close>

datatype float64 = Finite rat | PosInf | NegInf | NaN

text \<open>\<open>ilog2 x\<close> is the binary exponent of a positive rational: \<open>2 ^ e \<le> x < 2 ^ (e + 1)\<close>.\<close>

definition ilog2 :: "rat \<Rightarrow> int" where
  "ilog2 x = (let (p, q) = quotient_of x; e = bitlen p - bitlen q
              in if 2 powi e \<le> x then e else e - 1)"

definition round_half_even :: "rat \<Rightarrow> int" where
  "round_half_even x =
     (let f = \<lfloor>x\<rfloor>; d = x - of_int f
      in if d < 1 / 2 then f else if 1 / 2 < d then f + 1 else if even f then f else f + 1)"

text \<open>
  Rounding a rational to the nearest binary64 value, ties to even: 53 significant bits,
  least exponent \<open>-1022\<close> (below it the spacing stays \<open>2 ^ -1074\<close>), overflow to an
  infinity from \<open>2 ^ 1024\<close> on.
\<close>

definition fl_round :: "rat \<Rightarrow> float64" where
  "fl_round x =
     (if x = 0 then Finite 0
      else let e = max (ilog2 \<bar>x\<bar>) (- 1022);
               q = 2 powi (e - 52);
               y = of_int (round_half_even (x / q)) * q
           in if 2 powi 1024 \<le> \<bar>y\<bar> then (if 0 < x then PosInf else NegInf) else Finite y)"

text \<open>Conversion of an integer that is within the range of binary64.\<close>

definition float_of_int :: "int \<Rightarrow> float64" where
  "float_of_int n = fl_round (of_int n)"

fun fl_add :: "float64 \<Rightarrow> float64 \<Rightarrow> float64" where
  "fl_add (Finite x) (Finite y) = fl_round (x + y)"
| "fl_add NaN b = NaN"
| "fl_add a NaN = NaN"
| "fl_add PosInf NegInf = NaN"
| "fl_add NegInf PosInf = NaN"
| "fl_add PosInf b = PosInf"
| "fl_add a PosInf = PosInf"
| "fl_add NegInf b = NegInf"
| "fl_add a NegInf = NegInf"

fun fl_neg :: "float64 \<Rightarrow> float64" where
  "fl_neg (Finite x) = Finite (- x)"
| "fl_neg PosInf = NegInf"
| "fl_neg NegInf = PosInf"
| "fl_neg NaN = NaN"

fun fl_mul :: "float64 \<Rightarrow> float64 \<Rightarrow> float64" where
  "fl_mul (Finite x) (Finite y) = fl_round (x * y)"
| "fl_mul NaN b = NaN"
| "fl_mul a NaN = NaN"
| "fl_mul (Finite x) b = (if x = 0 then NaN else if 0 < x then b else fl_neg b)"
| "fl_mul a (Finite y) = (if y = 0 then NaN else if 0 < y then a else fl_neg a)"
| "fl_mul PosInf b = b"
| "fl_mul NegInf b = fl_neg b"

text \<open>
  Division as numpy's \<^verbatim>\<open>true_divide\<close> performs it with the default error state:
  a zero divisor gives an infinity or NaN (and a \<^verbatim>\<open>RuntimeWarning\<close>), no exception.
  The zero divisor is taken as \<open>+0\<close>; the divisor \<^verbatim>\<open>sum(splits)\<close> of the source is
  never \<open>-0\<close>, since the sum starts from the integer \<open>0\<close>.
\<close>

fun fl_div :: "float64 \<Rightarrow> float64 \<Rightarrow> float64" where
  "fl_div (Finite x) (Finite y) =
     (if y = 0 then (if x = 0 then NaN else if 0 < x then PosInf else NegInf)
      else fl_round (x / y))"
| "fl_div NaN b = NaN"
| "fl_div a NaN = NaN"
| "fl_div (Finite x) b = Finite 0"
| "fl_div a (Finite y) = (if 0 \<le> y then a else fl_neg a)"
| "fl_div a b = NaN"

fun fl_floor :: "float64 \<Rightarrow> float64" where
  "fl_floor (Finite x) = Finite (of_int \<lfloor>x\<rfloor>)"
| "fl_floor a = a"


text \<open>
  \<^verbatim>\<open>astype(int)\<close>: a finite value within the int64 range is truncated towards zero.
  For every other value the C cast is undefined and the result depends on the
  platform (x86-64 gives \<open>- 2 ^ 63\<close>); it is the parameter \<open>invalid_cast\<close>.
\<close>

fun astype_int :: "(float64 \<Rightarrow> int) \<Rightarrow> float64 \<Rightarrow> int" where
  "astype_int invalid_cast (Finite x) =
     (if - (2 ^ 63) \<le> x \<and> x < 2 ^ 63 then (if 0 \<le> x then \<lfloor>x\<rfloor> else \<lceil>x\<rceil>)
      else invalid_cast (Finite x))"
| "astype_int invalid_cast a = invalid_cast a"

subsection \<open>SplitIndexer: selecting index blocks\<close>

text \<open>
  The attributes of a \<^verbatim>\<open>SplitIndexer\<close>. \<open>total_num\<close> is the Python integer given to
  the constructor; the three counts are the int64 entries of \<^verbatim>\<open>unnorm.astype(int)\<close>.
\<close>

record SplitIndexer =
  total_num :: int
  normalised_split :: "float64 list"
  training_percentage :: float64
  validation_percentage :: float64
  testing_percentage :: float64
  training_num :: int
  validation_num :: int
  testing_num :: int

text \<open>
  \<^verbatim>\<open>unnormalised\<close>: the products of the normalised proportions with \<open>num\<close>, floored
  on request, cast to int64.
\<close>

definition unnormalised :: "(float64 \<Rightarrow> int) \<Rightarrow> SplitIndexer \<Rightarrow> int \<Rightarrow> bool \<Rightarrow> int list" where
  "unnormalised invalid_cast self num floored =
     (let unnorm = map (\<lambda>p. fl_mul p (float_of_int num)) (normalised_split self);
          unnorm = (if floored then map fl_floor unnorm else unnorm)
      in map (astype_int invalid_cast) unnorm)"

text \<open>
  The constructor, for weights given as floats (the annotated type) and a dataset
  length in the int64 range. \<^verbatim>\<open>sum(splits)\<close> adds the three entries to the integer
  \<open>0\<close>, from left to right.
\<close>

definition SplitIndexer_init ::
  "(float64 \<Rightarrow> int) \<Rightarrow> int \<Rightarrow> float64 \<Rightarrow> float64 \<Rightarrow> float64 \<Rightarrow> SplitIndexer" where
  "SplitIndexer_init invalid_cast dataset_length training validation testing =
     (let splits = [training, validation, testing];
          total = foldl fl_add (Finite 0) splits;
          normalised = map (\<lambda>s. fl_div s total) splits;
          self = \<lparr>total_num = dataset_length, normalised_split = normalised,
                  training_percentage = normalised ! 0,
                  validation_percentage = normalised ! 1,
                  testing_percentage = normalised ! 2,
                  training_num = 0, validation_num = 0, testing_num = 0\<rparr>;
          nums = unnormalised invalid_cast self dataset_length True
      in self\<lparr>training_num := nums ! 0, validation_num := nums ! 1, testing_num := nums ! 2\<rparr>)"

text \<open>Unary minus on an int64 wraps at the least value.\<close>

definition neg_int64 :: "int \<Rightarrow> int" where
  "neg_int64 i = (if i = - (2 ^ 63) then - (2 ^ 63) else - i)"

definition select_train_indices :: "SplitIndexer \<Rightarrow> 'a list \<Rightarrow> 'a list" where
  "select_train_indices self ind = py_slice ind None (Some (training_num self))"

definition select_validation_indices :: "SplitIndexer \<Rightarrow> 'a list \<Rightarrow> 'a list" where
  "select_validation_indices self ind =
     (if validation_num self \<noteq> 0 then
        (if testing_num self \<noteq> 0
         then py_slice ind (Some (training_num self)) (Some (neg_int64 (testing_num self)))
         else py_slice ind (Some (training_num self)) None)
      else [])"

definition select_testing_indices :: "SplitIndexer \<Rightarrow> 'a list \<Rightarrow> 'a list" where
  "select_testing_indices self ind =
     (if testing_num self \<noteq> 0
      then py_slice ind (Some (neg_int64 (testing_num self))) None
      else [])"

text \<open>
  The global generator of \<^verbatim>\<open>numpy.random\<close> is library code: its state is a value
  of a type \<open>'g\<close>, and its two operations are parameters. \<^verbatim>\<open>numpy.random.seed(seed)\<close>
  replaces the state by one computed from the seed alone (or raises, for a seed
  numpy refuses); \<^verbatim>\<open>numpy.random.permutation(n).tolist()\<close> returns a list and
  the advanced state.
\<close>

record 'g np_random =
  np_seed :: "int \<Rightarrow> py_error + 'g"
  np_permutation :: "int \<Rightarrow> 'g \<Rightarrow> int list \<times> 'g"

text \<open>What numpy documents of \<^verbatim>\<open>permutation(n)\<close>: a rearrangement of \<^verbatim>\<open>range(n)\<close>.\<close>

definition permutation_of_range :: "int list \<Rightarrow> int \<Rightarrow> bool" where
  "permutation_of_range ind n \<longleftrightarrow> mset ind = mset [0..n - 1]"

definition shuffled_indices ::
  "'g np_random \<Rightarrow> SplitIndexer \<Rightarrow> 'g \<Rightarrow> (Split \<times> int list) list \<times> 'g" where
  "shuffled_indices R self g =
     (let (split_indices, g') = np_permutation R (total_num self) g
      in ([(Training, select_train_indices self split_indices),
           (Validation, select_validation_indices self split_indices),
           (Testing, select_testing_indices self split_indices)], g'))"

text \<open>
  The argument \<^verbatim>\<open>split\<close> of \<^verbatim>\<open>select_shuffled_split_indices\<close> is not checked by
  Python: it may be a member of \<^verbatim>\<open>Split\<close>, \<^verbatim>\<open>None\<close>, or any other value (here
  a string, such as the member's value \<^verbatim>\<open>"training"\<close>).
\<close>

datatype split_arg = Member Split | PyNone | Other string

definition select_shuffled_split_indices ::
  "'g np_random \<Rightarrow> SplitIndexer \<Rightarrow> split_arg \<Rightarrow> int \<Rightarrow> 'g \<Rightarrow> (py_error + int list) \<times> 'g" where
  "select_shuffled_split_indices R self split seed g =
     (case np_seed R seed of
        Inl e \<Rightarrow> (Inl e, g)
      | Inr g0 \<Rightarrow>
          (let (split_indices, g') = np_permutation R (total_num self) g0
           in if split = Member Training then (Inr (select_train_indices self split_indices), g')
              else if split = Member Validation
                then (Inr (select_validation_indices self split_indices), g')
              else if split = Member Testing
                then (Inr (select_testing_indices self split_indices), g')
              else if split = PyNone then (Inr split_indices, g')
              else (Inl NotImplementedError, g')))"

subsection \<open>SHA-1 (hashlib.sha1)\<close>














subsection \<open>train\_valid\_test\_split\<close>














section \<open>Properties\<close>

subsection \<open>Rounding to binary64\<close>

lemma quotient_of_pos:
  assumes "0 < x" and "quotient_of x = (p, q)"
  shows "0 < p" and "0 < q" and "x = of_int p / of_int q"
proof -
  show q: "0 < q" using assms(2) by (rule quotient_of_denom_pos)
  show x: "x = of_int p / of_int q" using assms(2) by (rule quotient_of_div)
  show "0 < p"
    using assms(1) q x by (simp add: zero_less_divide_iff)
qed

lemma ilog2_bounds:
  assumes "0 < x"
  shows "2 powi (ilog2 x) \<le> x" and "x < 2 powi (ilog2 x + 1)"
proof -
  obtain p q where pq: "quotient_of x = (p, q)" by (cases "quotient_of x")
  from quotient_of_pos [OF assms pq]
  have p: "0 < p" and q: "0 < q" and x: "x = of_int p / of_int q" by auto
  define a where "a = bitlen p"
  define b where "b = bitlen q"
  have a1: "1 \<le> a" using p by (simp add: a_def bitlen_alt_def)
  have b1: "1 \<le> b" using q by (simp add: b_def bitlen_alt_def)
  have pa: "2 ^ nat (a - 1) \<le> p" "p < 2 ^ nat a"
    using bitlen_bounds [OF p] by (simp_all add: a_def)
  have qb: "2 ^ nat (b - 1) \<le> q" "q < 2 ^ nat b"
    using bitlen_bounds [OF q] by (simp_all add: b_def)
  have pa': "(2::rat) powi (a - 1) \<le> of_int p" "(of_int p :: rat) < 2 powi a"
  proof -
    have "(of_int (2 ^ nat (a - 1)) :: rat) \<le> of_int p" using pa(1) by (simp only: of_int_le_iff)
    then show "(2::rat) powi (a - 1) \<le> of_int p"
      using a1 by (simp add: power_int_nonneg_exp)
    have "(of_int p :: rat) < of_int (2 ^ nat a)" using pa(2) by (simp only: of_int_less_iff)
    then show "(of_int p :: rat) < 2 powi a"
      using a1 by (simp add: power_int_nonneg_exp)
  qed
  have qb': "(2::rat) powi (b - 1) \<le> of_int q" "(of_int q :: rat) < 2 powi b"
  proof -
    have "(of_int (2 ^ nat (b - 1)) :: rat) \<le> of_int q" using qb(1) by (simp only: of_int_le_iff)
    then show "(2::rat) powi (b - 1) \<le> of_int q"
      using b1 by (simp add: power_int_nonneg_exp)
    have "(of_int q :: rat) < of_int (2 ^ nat b)" using qb(2) by (simp only: of_int_less_iff)
    then show "(of_int q :: rat) < 2 powi b"
      using b1 by (simp add: power_int_nonneg_exp)
  qed
  have q0: "(0::rat) < of_int q" using q by simp
  have lower: "2 powi (a - b - 1) \<le> x"
  proof -
    have "(2::rat) powi (a - b - 1) * of_int q \<le> 2 powi (a - b - 1) * 2 powi b"
      using qb'(2) by (intro mult_left_mono) auto
    also have "\<dots> = 2 powi (a - 1)"
      by (simp flip: power_int_add)
    also have "\<dots> \<le> of_int p" by (rule pa'(1))
    finally show ?thesis
      using q0 by (simp add: x pos_le_divide_eq)
  qed
  have upper: "x < 2 powi (a - b + 1)"
  proof -
    have "(of_int p :: rat) < 2 powi a" by (rule pa'(2))
    also have "\<dots> = 2 powi (a - b + 1) * 2 powi (b - 1)"
      by (simp flip: power_int_add)
    also have "\<dots> \<le> 2 powi (a - b + 1) * of_int q"
      using qb'(1) by (intro mult_left_mono) auto
    finally show ?thesis
      using q0 by (simp add: x pos_divide_less_eq)
  qed
  have il: "ilog2 x = (if 2 powi (a - b) \<le> x then a - b else a - b - 1)"
    by (simp add: ilog2_def pq a_def b_def Let_def)
  show "2 powi (ilog2 x) \<le> x"
    using lower by (simp add: il)
  show "x < 2 powi (ilog2 x + 1)"
    using upper by (auto simp add: il not_le)
qed

lemma pow2_less_iff: "((2::rat) powi m < 2 powi n) = (m < n)"
proof
  assume a: "(2::rat) powi m < 2 powi n"
  show "m < n"
  proof (rule ccontr)
    assume "\<not> m < n"
    then have "n \<le> m" by simp
    then have "(2::rat) powi n \<le> 2 powi m" by (intro power_int_increasing) auto
    with a show False by simp
  qed
next
  assume "m < n"
  then show "(2::rat) powi m < 2 powi n" by (intro power_int_strict_increasing) auto
qed

lemma pow2_le_iff: "((2::rat) powi m \<le> 2 powi n) = (m \<le> n)"
  using pow2_less_iff [of n m] by (auto simp add: not_less [symmetric])

lemma ilog2_unique:
  assumes "0 < x" and "2 powi e \<le> x" and "x < 2 powi (e + 1)"
  shows "ilog2 x = e"
proof -
  have "(2::rat) powi (ilog2 x) < 2 powi (e + 1)"
    using ilog2_bounds(1) [OF assms(1)] assms(3) by simp
  then have 1: "ilog2 x < e + 1"
    by (simp only: pow2_less_iff)
  have "(2::rat) powi e < 2 powi (ilog2 x + 1)"
    using ilog2_bounds(2) [OF assms(1)] assms(2) by simp
  then have 2: "e < ilog2 x + 1"
    by (simp only: pow2_less_iff)
  from 1 2 show ?thesis by simp
qed

lemma round_half_even_cases:
  "round_half_even x = \<lfloor>x\<rfloor> \<and> x - of_int \<lfloor>x\<rfloor> \<le> 1 / 2
   \<or> round_half_even x = \<lfloor>x\<rfloor> + 1 \<and> 1 / 2 \<le> x - of_int \<lfloor>x\<rfloor>"
  by (auto simp add: round_half_even_def Let_def)

lemma round_half_even_upper: "of_int (round_half_even x) \<le> x + 1 / 2"
proof -
  define f where "f = \<lfloor>x\<rfloor>"
  have fx: "of_int f \<le> x" by (simp add: f_def)
  from round_half_even_cases [of x]
  consider (a) "round_half_even x = f"
    | (b) "round_half_even x = f + 1" "1 / 2 \<le> x - of_int f"
    unfolding f_def by blast
  then show ?thesis
  proof cases
    case a
    then have "(of_int (round_half_even x) :: rat) = of_int f" by simp
    with fx show ?thesis by linarith
  next
    case b
    then have "(of_int (round_half_even x) :: rat) = of_int f + 1" by simp
    with b(2) show ?thesis by linarith
  qed
qed

lemma round_half_even_lower: "x - 1 / 2 \<le> of_int (round_half_even x)"
proof -
  define f where "f = \<lfloor>x\<rfloor>"
  have fx: "x < of_int f + 1" unfolding f_def by linarith
  from round_half_even_cases [of x]
  consider (a) "round_half_even x = f" "x - of_int f \<le> 1 / 2"
    | (b) "round_half_even x = f + 1"
    unfolding f_def by blast
  then show ?thesis
  proof cases
    case a
    then have "(of_int (round_half_even x) :: rat) = of_int f" by simp
    with a(2) show ?thesis by linarith
  next
    case b
    then have "(of_int (round_half_even x) :: rat) = of_int f + 1" by simp
    with fx show ?thesis by linarith
  qed
qed

lemma round_half_even_le_int:
  assumes "x \<le> of_int n"
  shows "round_half_even x \<le> n"
proof -
  have f: "\<lfloor>x\<rfloor> \<le> n" using assms by (simp add: floor_le_iff)
  show ?thesis
  proof (cases "\<lfloor>x\<rfloor> = n")
    case True
    then have "x = of_int \<lfloor>x\<rfloor>" using assms by (metis of_int_floor_le order_antisym)
    then have "x - of_int \<lfloor>x\<rfloor> < 1 / 2" by simp
    then have "round_half_even x = \<lfloor>x\<rfloor>"
      using round_half_even_cases [of x] by auto
    with f show ?thesis by simp
  next
    case False
    with f have "\<lfloor>x\<rfloor> + 1 \<le> n" by simp
    then show ?thesis
      using round_half_even_cases [of x] by auto
  qed
qed

lemma round_half_even_ge_int:
  assumes "of_int n \<le> x"
  shows "n \<le> round_half_even x"
proof -
  have "n \<le> \<lfloor>x\<rfloor>" using assms by (simp add: le_floor_iff)
  then show ?thesis
    using round_half_even_cases [of x] by auto
qed

lemma round_half_even_of_int [simp]: "round_half_even (of_int n) = n"
  using round_half_even_le_int [of "of_int n" n] round_half_even_ge_int [of n "of_int n"]
  by simp

text \<open>Rounding a positive rational, with its exponent given.\<close>

lemma fl_round_normal:
  assumes "0 < x" and "2 powi e \<le> x" and "x < 2 powi (e + 1)"
    and "- 1022 \<le> e" and "e \<le> 1022"
  shows "fl_round x = Finite (of_int (round_half_even (x / 2 powi (e - 52))) * 2 powi (e - 52))"
proof -
  let ?q = "(2::rat) powi (e - 52)"
  let ?m = "round_half_even (x / ?q)"
  have il: "ilog2 x = e" using assms(1-3) by (rule ilog2_unique)
  have q0: "0 < ?q" by simp
  have "x / ?q < 2 powi (e + 1) / ?q"
    using assms(3) q0 by (simp add: divide_strict_right_mono)
  also have "\<dots> = 2 powi 53"
    by (simp flip: power_int_diff)
  finally have "x / ?q \<le> of_int (2 ^ 53)" by simp
  then have m53: "?m \<le> 2 ^ 53" by (rule round_half_even_le_int)
  have "0 \<le> x / ?q" using assms(1) q0 by simp
  then have "of_int 0 \<le> x / ?q" by simp
  then have m0: "0 \<le> ?m" by (rule round_half_even_ge_int)
  have "of_int ?m * ?q \<le> of_int (2 ^ 53) * ?q"
    using m53 q0 by (intro mult_right_mono) (simp_all only: of_int_le_iff less_imp_le)
  also have "\<dots> = 2 powi (e + 1)"
  proof -
    have eq: "e + 1 = 53 + (e - 52)" by simp
    have "(2::rat) powi (e + 1) = 2 powi (53 + (e - 52))" by (subst eq) (rule refl)
    also have "\<dots> = 2 powi 53 * 2 powi (e - 52)" by (rule power_int_add) simp
    finally show ?thesis by simp
  qed
  also have "\<dots> < 2 powi 1024"
    using assms(5) by (simp only: pow2_less_iff)
  finally have y: "of_int ?m * ?q < 2 powi 1024" .
  have y0: "0 \<le> of_int ?m * ?q" using m0 q0 by simp
  have "\<not> 2 powi 1024 \<le> \<bar>of_int ?m * ?q\<bar>"
    using y y0 by (simp only: abs_of_nonneg not_le)
  moreover have "max (ilog2 \<bar>x\<bar>) (- 1022) = e"
    using assms(1,4) il by simp
  ultimately show ?thesis
    using assms(1) unfolding fl_round_def Let_def by (simp only: if_False) simp
qed

text \<open>Evaluating the rounding of a fraction with integer division.\<close>

lemma round_half_even_fraction:
  assumes "0 < b"
  shows "round_half_even (of_int a / of_int b) =
     (if 2 * (a mod b) < b then a div b
      else if b < 2 * (a mod b) then a div b + 1
      else if even (a div b) then a div b else a div b + 1)"
proof -
  have fl: "\<lfloor>(of_int a / of_int b :: rat)\<rfloor> = a div b"
    by (simp add: floor_divide_of_int_eq)
  have b0: "(0::rat) < of_int b" using assms by simp
  have "(of_int a :: rat) = of_int (a div b * b + a mod b)" by simp
  also have "\<dots> = of_int (a div b) * of_int b + of_int (a mod b)"
    by (simp only: of_int_add of_int_mult)
  finally have "(of_int a / of_int b :: rat)
      = (of_int (a div b) * of_int b + of_int (a mod b)) / of_int b"
    by simp
  also have "\<dots> = of_int (a div b) + of_int (a mod b) / of_int b"
    using b0 by (simp add: add_divide_distrib)
  finally have "(of_int a / of_int b :: rat) = of_int (a div b) + of_int (a mod b) / of_int b" .
  then have d: "(of_int a / of_int b :: rat) - of_int (a div b) = of_int (a mod b) / of_int b"
    by simp
  have lt: "(of_int (a mod b) / of_int b < (1 / 2 :: rat)) = (2 * (a mod b) < b)"
  proof -
    have "(of_int (a mod b) / of_int b < (1 / 2 :: rat)) = ((of_int (2 * (a mod b)) :: rat) < of_int b)"
      using b0 by (simp add: field_simps)
    then show ?thesis by (simp only: of_int_less_iff)
  qed
  have gt: "((1 / 2 :: rat) < of_int (a mod b) / of_int b) = (b < 2 * (a mod b))"
  proof -
    have "((1 / 2 :: rat) < of_int (a mod b) / of_int b) = ((of_int b :: rat) < of_int (2 * (a mod b)))"
      using b0 by (simp add: field_simps)
    then show ?thesis by (simp only: of_int_less_iff)
  qed
  show ?thesis
    unfolding round_half_even_def Let_def fl d lt gt by (rule refl)
qed

lemma round_half_even_numeral_fraction:
  "round_half_even (numeral a / numeral b) =
     (if 2 * ((numeral a :: int) mod numeral b) < numeral b then numeral a div numeral b
      else if (numeral b :: int) < 2 * (numeral a mod numeral b) then numeral a div numeral b + 1
      else if even ((numeral a :: int) div numeral b) then numeral a div numeral b
      else numeral a div numeral b + 1)"
  using round_half_even_fraction [of "numeral b" "numeral a"] by simp

lemma round_half_even_numeral [simp]: "round_half_even (numeral a) = numeral a"
  using round_half_even_of_int [of "numeral a"] by simp

lemma floor_numeral_fraction:
  "\<lfloor>(numeral a / numeral b :: rat)\<rfloor> = numeral a div numeral b"
  using floor_divide_of_int_eq [of "numeral a" "numeral b", where ?'a = rat] by simp


text \<open>The shape of a rounded positive rational.\<close>

lemma fl_round_pos_cases:
  assumes "0 < x"
  obtains (finite) m where "fl_round x = Finite (of_int m * 2 powi (max (ilog2 x) (- 1022) - 52))"
      and "m = round_half_even (x / 2 powi (max (ilog2 x) (- 1022) - 52))"
      and "0 \<le> m" and "m \<le> 2 ^ 53"
    | (inf) "fl_round x = PosInf"
proof -
  define e where "e = max (ilog2 x) (- 1022)"
  define q :: rat where "q = 2 powi (e - 52)"
  define m where "m = round_half_even (x / q)"
  have q0: "0 < q" by (simp add: q_def)
  have "of_int 0 \<le> x / q" using assms q0 by simp
  then have m0: "0 \<le> m" unfolding m_def by (rule round_half_even_ge_int)
  have xe: "x < 2 powi (e + 1)"
  proof -
    have "x < 2 powi (ilog2 x + 1)" using assms by (rule ilog2_bounds(2))
    also have "\<dots> \<le> 2 powi (e + 1)" by (simp add: pow2_le_iff e_def)
    finally show ?thesis .
  qed
  have "x / q < 2 powi (e + 1) / q"
    using xe q0 by (simp add: divide_strict_right_mono)
  also have "\<dots> = 2 powi 53"
    unfolding q_def by (simp flip: power_int_diff)
  finally have "x / q \<le> of_int (2 ^ 53)" by simp
  then have m53: "m \<le> 2 ^ 53" unfolding m_def by (rule round_half_even_le_int)
  have y0: "0 \<le> of_int m * q" using m0 q0 by simp
  have fl: "fl_round x = (if 2 powi 1024 \<le> of_int m * q then PosInf else Finite (of_int m * q))"
    using assms y0 unfolding fl_round_def Let_def m_def q_def e_def
    by (simp add: abs_of_nonneg)
  show thesis
  proof (cases "2 powi 1024 \<le> of_int m * q")
    case True
    with fl have "fl_round x = PosInf" by simp
    then show thesis by (rule inf)
  next
    case False
    with fl have "fl_round x = Finite (of_int m * 2 powi (max (ilog2 x) (- 1022) - 52))"
      by (simp add: q_def e_def)
    then show thesis
      using m0 m53 by (intro finite [of m]) (simp_all add: m_def q_def e_def)
  qed
qed




subsection \<open>The error of one rounding\<close>

lemma pow2_split: "(2::rat) powi (a + b) = 2 powi a * 2 powi b"
  by (rule power_int_add) simp

lemma fl_round_upper:
  assumes "0 \<le> x" and "fl_round x = Finite y"
  shows "y \<le> x + x / 2 ^ 53 + 1 / 2 ^ 60"
proof (cases "x = 0")
  case True
  with assms(2) show ?thesis by (simp add: fl_round_def)
next
  case False
  with assms(1) have x0: "0 < x" by simp
  define e where "e = max (ilog2 x) (- 1022)"
  define q :: rat where "q = 2 powi (e - 52)"
  from x0 assms(2) obtain m where
    y: "y = of_int m * q" and m: "m = round_half_even (x / q)"
    unfolding q_def e_def by (cases x rule: fl_round_pos_cases) auto
  have q0: "0 < q" by (simp add: q_def)
  have "of_int m \<le> x / q + 1 / 2" unfolding m by (rule round_half_even_upper)
  then have "of_int m * q \<le> (x / q + 1 / 2) * q"
    using q0 by (intro mult_right_mono) simp_all
  also have "\<dots> = x + q / 2" using q0 by (simp add: field_simps)
  finally have yq: "y \<le> x + q / 2" by (simp add: y)
  have qh: "q / 2 = 2 powi (e - 53)"
  proof -
    have eq: "e - 52 = (e - 53) + 1" by simp
    have "q = 2 powi ((e - 53) + 1)" unfolding q_def by (subst eq) (rule refl)
    also have "\<dots> = 2 powi (e - 53) * 2 powi 1" by (rule pow2_split)
    finally show ?thesis by simp
  qed
  have "q / 2 \<le> x / 2 ^ 53 + 1 / 2 ^ 60"
  proof (cases "- 1022 \<le> ilog2 x")
    case True
    then have e: "e = ilog2 x" by (simp add: e_def)
    have eq: "e = (e - 53) + 53" by simp
    have "(2::rat) powi e = 2 powi ((e - 53) + 53)" by (subst eq) (rule refl)
    also have "\<dots> = 2 powi (e - 53) * 2 powi 53" by (rule pow2_split)
    finally have "(2::rat) powi (e - 53) = 2 powi e / 2 ^ 53" by simp
    moreover have "(2::rat) powi e \<le> x" unfolding e using x0 by (rule ilog2_bounds(1))
    ultimately have "q / 2 \<le> x / 2 ^ 53"
      unfolding qh by (simp add: divide_right_mono)
    then show ?thesis by simp
  next
    case False
    then have e: "e = - 1022" by (simp add: e_def)
    have "(2::rat) powi (e - 53) \<le> 2 powi (- 60)"
      unfolding e by (simp only: pow2_le_iff)
    also have "(2::rat) powi (- 60) = 1 / 2 ^ 60"
      by (simp add: power_int_minus_divide)
    finally have "q / 2 \<le> 1 / 2 ^ 60" by (simp only: qh)
    moreover have "0 \<le> x / 2 ^ 53" using assms(1) by simp
    ultimately show ?thesis by linarith
  qed
  with yq show ?thesis by linarith
qed

lemma fl_round_lower:
  assumes "0 \<le> x" and "x = of_int N * 2 powi (- 1074)" and "fl_round x = Finite y"
  shows "x - x / 2 ^ 53 \<le> y"
proof (cases "x = 0")
  case True
  with assms(3) show ?thesis by (simp add: fl_round_def)
next
  case False
  with assms(1) have x0: "0 < x" by simp
  define e where "e = max (ilog2 x) (- 1022)"
  define q :: rat where "q = 2 powi (e - 52)"
  from x0 assms(3) obtain m where
    y: "y = of_int m * q" and m: "m = round_half_even (x / q)"
    unfolding q_def e_def by (cases x rule: fl_round_pos_cases) auto
  have q0: "0 < q" by (simp add: q_def)
  show ?thesis
  proof (cases "- 1022 \<le> ilog2 x")
    case True
    then have e: "e = ilog2 x" by (simp add: e_def)
    have "x / q - 1 / 2 \<le> of_int m" unfolding m by (rule round_half_even_lower)
    then have "(x / q - 1 / 2) * q \<le> of_int m * q"
      using q0 by (intro mult_right_mono) simp_all
    moreover have "(x / q - 1 / 2) * q = x - q / 2" using q0 by (simp add: field_simps)
    ultimately have yq: "x - q / 2 \<le> y" by (simp add: y)
    have eq: "e - 52 = (e - 53) + 1" by simp
    have "q = 2 powi ((e - 53) + 1)" unfolding q_def by (subst eq) (rule refl)
    also have "\<dots> = 2 powi (e - 53) * 2 powi 1" by (rule pow2_split)
    finally have qh: "q / 2 = 2 powi (e - 53)" by simp
    have eq': "e = (e - 53) + 53" by simp
    have "(2::rat) powi e = 2 powi ((e - 53) + 53)" by (subst eq') (rule refl)
    also have "\<dots> = 2 powi (e - 53) * 2 powi 53" by (rule pow2_split)
    finally have "(2::rat) powi (e - 53) = 2 powi e / 2 ^ 53" by simp
    moreover have "(2::rat) powi e \<le> x" unfolding e using x0 by (rule ilog2_bounds(1))
    ultimately have "q / 2 \<le> x / 2 ^ 53"
      unfolding qh by (simp add: divide_right_mono)
    with yq show ?thesis by linarith
  next
    case False
    then have e: "e = - 1022" by (simp add: e_def)
    have "q = 2 powi (- 1074)" by (simp add: q_def e)
    then have xq: "x = of_int N * q" using assms(2) by (simp only:)
    then have "x / q = of_int N" using q0 by simp
    then have "m = N" by (simp add: m)
    then have "y = x" by (simp only: y xq)
    moreover have "0 \<le> x / 2 ^ 53" using assms(1) by simp
    ultimately show ?thesis by linarith
  qed
qed

lemma fl_round_grid:
  assumes "fl_round x = Finite y" and "0 \<le> x"
  shows "\<exists>N. y = of_int N * 2 powi (- 1074)"
proof (cases "x = 0")
  case True
  with assms(1) have "y = of_int 0 * 2 powi (- 1074)" by (simp add: fl_round_def)
  then show ?thesis by blast
next
  case False
  with assms(2) have x0: "0 < x" by simp
  define e where "e = max (ilog2 x) (- 1022)"
  from x0 assms(1) obtain m where y: "y = of_int m * 2 powi (e - 52)"
    unfolding e_def by (cases x rule: fl_round_pos_cases) auto
  have e: "- 1022 \<le> e" by (simp add: e_def)
  have eq: "e - 52 = (e + 1022) + (- 1074)" by simp
  have "(2::rat) powi (e - 52) = 2 powi ((e + 1022) + (- 1074))" by (subst eq) (rule refl)
  also have "\<dots> = 2 powi (e + 1022) * 2 powi (- 1074)" by (rule pow2_split)
  also have "(2::rat) powi (e + 1022) = of_int (2 ^ nat (e + 1022))"
    using e by (simp add: power_int_nonneg_exp)
  finally have "y = of_int (m * 2 ^ nat (e + 1022)) * 2 powi (- 1074)"
    by (simp add: y)
  then show ?thesis by blast
qed

lemma grid_add:
  assumes "x = of_int M * 2 powi (- 1074)" and "y = of_int N * 2 powi (- 1074)"
  shows "x + y = of_int (M + N) * 2 powi (- 1074)"
  using assms by (simp add: distrib_right)

lemma fl_round_int:
  assumes "0 \<le> n" and "n < 2 ^ 53"
  shows "fl_round (of_int n) = Finite (of_int n)"
proof (cases "n = 0")
  case True
  then show ?thesis by (simp add: fl_round_def)
next
  case False
  with assms(1) have n0: "0 < n" by simp
  define x :: rat where "x = of_int n"
  have x0: "0 < x" using n0 by (simp add: x_def)
  define e where "e = ilog2 x"
  have lo: "2 powi e \<le> x" and hi: "x < 2 powi (e + 1)"
    unfolding e_def using x0 by (rule ilog2_bounds)+
  have "(1::rat) \<le> x" using n0 by (simp add: x_def)
  then have "(2::rat) powi 0 < 2 powi (e + 1)" using hi by simp
  then have e0: "0 \<le> e" by (simp only: pow2_less_iff)
  have "x < of_int (2 ^ 53)" unfolding x_def using assms(2) by (simp only: of_int_less_iff)
  then have "(2::rat) powi e < 2 powi 53" using lo by simp
  then have e52: "e \<le> 52" by (simp only: pow2_less_iff)
  have q: "(2::rat) powi (e - 52) = 1 / 2 ^ nat (52 - e)"
  proof -
    have "(2::rat) powi (e - 52) = 2 powi (- (52 - e))" by simp
    also have "\<dots> = 1 / 2 powi (52 - e)" by (rule power_int_minus_divide)
    also have "(2::rat) powi (52 - e) = 2 ^ nat (52 - e)"
      using e52 by (simp add: power_int_nonneg_exp)
    finally show ?thesis .
  qed
  have "x / 2 powi (e - 52) = of_int (n * 2 ^ nat (52 - e))"
    by (simp add: q x_def)
  then have "round_half_even (x / 2 powi (e - 52)) = n * 2 ^ nat (52 - e)"
    by (simp only: round_half_even_of_int)
  moreover have "fl_round x = Finite (of_int (round_half_even (x / 2 powi (e - 52))) * 2 powi (e - 52))"
    using x0 lo hi e0 e52 by (intro fl_round_normal) simp_all
  ultimately show ?thesis
    by (simp add: q x_def)
qed

subsection \<open>Rounding at the numbers of the examples\<close>

lemma fl_round_0: "fl_round 0 = Finite 0"
  by (simp add: fl_round_def)

lemma fl_round_eval_0: "fl_round (7 / 10) = Finite (3152519739159347 / 4503599627370496)"
  using fl_round_normal [of "7 / 10" "- 1"] by (simp add: round_half_even_numeral_fraction)

lemma fl_round_eval_1: "fl_round (1 / 5) = Finite (3602879701896397 / 18014398509481984)"
  using fl_round_normal [of "1 / 5" "- 3"] by (simp add: round_half_even_numeral_fraction)

lemma fl_round_eval_2: "fl_round (1 / 10) = Finite (3602879701896397 / 36028797018963968)"
  using fl_round_normal [of "1 / 10" "- 4"] by (simp add: round_half_even_numeral_fraction)

lemma fl_round_eval_3: "fl_round 1 = Finite 1"
  using fl_round_normal [of 1 0] by (simp add: round_half_even_numeral_fraction)

lemma fl_round_eval_4: "fl_round 2 = Finite 2"
  using fl_round_normal [of 2 1] by (simp add: round_half_even_numeral_fraction)

lemma fl_round_eval_5: "fl_round 3 = Finite 3"
  using fl_round_normal [of 3 1] by (simp add: round_half_even_numeral_fraction)

lemma fl_round_eval_6: "fl_round (1 / 3) = Finite (6004799503160661 / 18014398509481984)"
  using fl_round_normal [of "1 / 3" "- 2"] by (simp add: round_half_even_numeral_fraction)

lemma fl_round_eval_7: "fl_round 10 = Finite 10"
  using fl_round_normal [of 10 3] by (simp add: round_half_even_numeral_fraction)

lemma fl_round_eval_8: "fl_round (30023997515803305 / 9007199254740992) = Finite (3752999689475413 / 1125899906842624)"
  using fl_round_normal [of "30023997515803305 / 9007199254740992" 1] by (simp add: round_half_even_numeral_fraction)

lemma fl_round_eval_9: "fl_round (1 / 2) = Finite (1 / 2)"
  using fl_round_normal [of "1 / 2" "- 1"] by (simp add: round_half_even_numeral_fraction)

lemma fl_round_eval_10: "fl_round 5 = Finite 5"
  using fl_round_normal [of 5 2] by (simp add: round_half_even_numeral_fraction)

lemma fl_round_eval_11: "fl_round (5 / 2) = Finite (5 / 2)"
  using fl_round_normal [of "5 / 2" 1] by (simp add: round_half_even_numeral_fraction)

lemma fl_round_eval_12: "fl_round (3152519739159347 / 4503599627370496) = Finite (3152519739159347 / 4503599627370496)"
  using fl_round_normal [of "3152519739159347 / 4503599627370496" "- 1"] by (simp add: round_half_even_numeral_fraction)

lemma fl_round_eval_13: "fl_round (16212958658533785 / 18014398509481984) = Finite (2026619832316723 / 2251799813685248)"
  using fl_round_normal [of "16212958658533785 / 18014398509481984" "- 1"] by (simp add: round_half_even_numeral_fraction)

lemma fl_round_eval_14: "fl_round (36028797018963965 / 36028797018963968) = Finite (9007199254740991 / 9007199254740992)"
  using fl_round_normal [of "36028797018963965 / 36028797018963968" "- 1"] by (simp add: round_half_even_numeral_fraction)

lemma fl_round_eval_15: "fl_round (6305039478318694 / 9007199254740991) = Finite (6305039478318695 / 9007199254740992)"
  using fl_round_normal [of "6305039478318694 / 9007199254740991" "- 1"] by (simp add: round_half_even_numeral_fraction)

lemma fl_round_eval_16: "fl_round (3602879701896397 / 18014398509481982) = Finite (7205759403792795 / 36028797018963968)"
  using fl_round_normal [of "3602879701896397 / 18014398509481982" "- 3"] by (simp add: round_half_even_numeral_fraction)

lemma fl_round_eval_17: "fl_round (3602879701896397 / 36028797018963964) = Finite (7205759403792795 / 72057594037927936)"
  using fl_round_normal [of "3602879701896397 / 36028797018963964" "- 4"] by (simp add: round_half_even_numeral_fraction)

lemma fl_round_eval_18: "fl_round 100 = Finite 100"
  using fl_round_normal [of 100 6] by (simp add: round_half_even_numeral_fraction)

lemma fl_round_eval_19: "fl_round (157625986957967375 / 2251799813685248) = Finite 70"
  using fl_round_normal [of "157625986957967375 / 2251799813685248" 6] by (simp add: round_half_even_numeral_fraction)

lemma fl_round_eval_20: "fl_round (180143985094819875 / 9007199254740992) = Finite (5629499534213121 / 281474976710656)"
  using fl_round_normal [of "180143985094819875 / 9007199254740992" 4] by (simp add: round_half_even_numeral_fraction)

lemma fl_round_eval_21: "fl_round (180143985094819875 / 18014398509481984) = Finite (5629499534213121 / 562949953421312)"
  using fl_round_normal [of "180143985094819875 / 18014398509481984" 3] by (simp add: round_half_even_numeral_fraction)

lemma fl_round_eval_22: "fl_round (18014398509481985 / 9007199254740992) = Finite 2"
  using fl_round_normal [of "18014398509481985 / 9007199254740992" 1] by (simp add: round_half_even_numeral_fraction)

lemma fl_round_eval_23: "fl_round (1 / 18014398509481984) = Finite (1 / 18014398509481984)"
  using fl_round_normal [of "1 / 18014398509481984" "- 54"] by (simp add: round_half_even_numeral_fraction)

lemma fl_round_eval_24: "fl_round 18014398509481984 = Finite 18014398509481984"
  using fl_round_normal [of 18014398509481984 54] by (simp add: round_half_even_numeral_fraction)

lemma fl_round_eval_25: "fl_round 9007199254740992 = Finite 9007199254740992"
  using fl_round_normal [of 9007199254740992 53] by (simp add: round_half_even_numeral_fraction)

lemma fl_round_eval_26: "fl_round 49 = Finite 49"
  using fl_round_normal [of 49 5] by (simp add: round_half_even_numeral_fraction)

lemma fl_round_eval_27: "fl_round (1 / 49) = Finite (5882252574524729 / 288230376151711744)"
  using fl_round_normal [of "1 / 49" "- 6"] by (simp add: round_half_even_numeral_fraction)

lemma fl_round_eval_28: "fl_round (48 / 49) = Finite (4411689430893547 / 4503599627370496)"
  using fl_round_normal [of "48 / 49" "- 1"] by (simp add: round_half_even_numeral_fraction)

lemma fl_round_eval_29: "fl_round (288230376151711721 / 288230376151711744) = Finite (9007199254740991 / 9007199254740992)"
  using fl_round_normal [of "288230376151711721 / 288230376151711744" "- 1"] by (simp add: round_half_even_numeral_fraction)

lemma fl_round_eval_30: "fl_round (216172782113783803 / 4503599627370496) = Finite 48"
  using fl_round_normal [of "216172782113783803 / 4503599627370496" 5] by (simp add: round_half_even_numeral_fraction)

lemmas fl_round_evals = fl_round_0 fl_round_eval_0 fl_round_eval_1 fl_round_eval_2 fl_round_eval_3 fl_round_eval_4 fl_round_eval_5 fl_round_eval_6 fl_round_eval_7 fl_round_eval_8 fl_round_eval_9 fl_round_eval_10 fl_round_eval_11 fl_round_eval_12 fl_round_eval_13 fl_round_eval_14 fl_round_eval_15 fl_round_eval_16 fl_round_eval_17 fl_round_eval_18 fl_round_eval_19 fl_round_eval_20 fl_round_eval_21 fl_round_eval_22 fl_round_eval_23 fl_round_eval_24 fl_round_eval_25 fl_round_eval_26 fl_round_eval_27 fl_round_eval_28 fl_round_eval_29 fl_round_eval_30









subsection \<open>select\_split is a projection\<close>

lemma dict_append_map:
  "distinct (map fst d) \<Longrightarrow>
   dict_append d k x = map (\<lambda>(k', xs). (k', if k' = k then xs @ [x] else xs)) d"
proof (induction d)
  case Nil
  then show ?case by simp
next
  case (Cons a d)
  obtain k' xs where a: "a = (k', xs)" by (cases a)
  show ?case
  proof (cases "k' = k")
    case True
    with Cons.prems a have "k \<notin> fst ` set d" by auto
    then have "map (\<lambda>(k', xs). (k', if k' = k then xs @ [x] else xs)) d = d"
      by (induction d) auto
    with True a show ?thesis by simp
  next
    case False
    with Cons a show ?thesis by simp
  qed
qed

lemma dict_append_keys: "map fst (dict_append d k x) = map fst d"
  by (induction d k x rule: dict_append.induct) auto

lemma append_items_map:
  "distinct (map fst d) \<Longrightarrow>
   append_items d k items = map (\<lambda>(k', xs). (k', if k' = k then xs @ items else xs)) d"
proof (induction items arbitrary: d)
  case Nil
  show ?case by (induction d) auto
next
  case (Cons a items)
  have "distinct (map fst (dict_append d k a))"
    using Cons.prems by (simp add: dict_append_keys)
  then show ?case
    using Cons.IH [of "dict_append d k a"] Cons.prems
    by (simp add: dict_append_map case_prod_unfold comp_def)
qed

lemma select_split_loop_ok:
  "distinct (map fst D @ map fst rest) \<Longrightarrow> \<forall>(k, v) \<in> set rest. v split \<noteq> None \<Longrightarrow>
   select_split_loop rest split (D @ map (\<lambda>k. (k, [])) (map fst rest))
     = Inr (D @ map (\<lambda>(k, v). (k, the (v split))) rest)"
proof (induction rest arbitrary: D)
  case Nil
  then show ?case by simp
next
  case (Cons a rest)
  obtain k v where a: "a = (k, v)" by (cases a)
  from Cons.prems a obtain items where items: "v split = Some items" by auto
  have d: "distinct (map fst (D @ (k, []) # map (\<lambda>k. (k, [])) (map fst rest)))"
    using Cons.prems a by (simp add: comp_def)
  have nk: "k \<notin> fst ` set D" "k \<notin> fst ` set rest"
    using Cons.prems a by auto
  have idD: "map (\<lambda>(k', xs). (k', if k' = k then xs @ items else xs)) D = D"
    using nk(1) by (induction D) auto
  have idR: "map (\<lambda>(k', xs). (k', if k' = k then xs @ items else xs)) (map (\<lambda>k. (k, [])) (map fst rest))
      = map (\<lambda>k. (k, [])) (map fst rest)"
    using nk(2) by (induction rest) auto
  have step: "append_items (D @ (k, []) # map (\<lambda>k. (k, [])) (map fst rest)) k items
      = (D @ [(k, items)]) @ map (\<lambda>k. (k, [])) (map fst rest)"
    unfolding append_items_map [OF d] using idD idR by simp
  have "distinct (map fst (D @ [(k, items)]) @ map fst rest)"
    using Cons.prems a by auto
  moreover have "\<forall>(k, v) \<in> set rest. v split \<noteq> None"
    using Cons.prems by auto
  ultimately have "select_split_loop rest split ((D @ [(k, items)]) @ map (\<lambda>k. (k, [])) (map fst rest))
     = Inr ((D @ [(k, items)]) @ map (\<lambda>(k, v). (k, the (v split))) rest)"
    by (rule Cons.IH)
  then show ?case
    using a items step by simp
qed

lemma select_split_loop_KeyError:
  "\<exists>(k, v) \<in> set rest. v split = None \<Longrightarrow> select_split_loop rest split data = Inl KeyError"
  by (induction rest split data rule: select_split_loop.induct) (auto split: option.splits)

text \<open>
  Claim C9. For a dictionary \<open>d\<close> (an association list with distinct keys) and a target
  split, \<open>select_split\<close> returns the dictionary with the keys of \<open>d\<close>, in their order,
  each mapped to the sequence its inner dictionary holds for the split (the empty
  sequence where that is empty), provided every inner dictionary has the split as a key;
  it raises \<^verbatim>\<open>KeyError\<close> as soon as one inner dictionary lacks the split.
\<close>

theorem select_split_projection:
  assumes "distinct (map fst d)"
  shows "select_split d split =
     (if \<forall>(k, v) \<in> set d. v split \<noteq> None
      then Inr (map (\<lambda>(k, v). (k, the (v split))) d)
      else Inl KeyError)"
proof (cases "\<forall>(k, v) \<in> set d. v split \<noteq> None")
  case True
  have "select_split_loop d split ([] @ map (\<lambda>k. (k, [])) (map fst d))
     = Inr ([] @ map (\<lambda>(k, v). (k, the (v split))) d)"
    by (rule select_split_loop_ok) (use assms True in auto)
  with True show ?thesis by (simp add: select_split_def)
next
  case False
  then have "\<exists>(k, v) \<in> set d. v split = None" by fastforce
  then have "select_split_loop d split (map (\<lambda>k. (k, [])) (map fst d)) = Inl KeyError"
    by (rule select_split_loop_KeyError)
  with False show ?thesis by (simp add: select_split_def)
qed

theorem select_split_projection_witness:
  "distinct (map fst
      [(''cats'', [Training \<mapsto> [1, 2], Validation \<mapsto> [], Testing \<mapsto> [3::nat]]),
       (''dogs'', [Training \<mapsto> [4], Validation \<mapsto> [5, 6], Testing \<mapsto> []])])
   \<and> select_split
      [(''cats'', [Training \<mapsto> [1, 2], Validation \<mapsto> [], Testing \<mapsto> [3::nat]]),
       (''dogs'', [Training \<mapsto> [4], Validation \<mapsto> [5, 6], Testing \<mapsto> []])] Validation
      = Inr [(''cats'', []), (''dogs'', [5, 6])]
   \<and> select_split
      [(''cats'', [Training \<mapsto> [1, 2], Validation \<mapsto> [], Testing \<mapsto> [3::nat]]),
       (''dogs'', [Training \<mapsto> [4]])] Validation
      = Inl KeyError"
  using select_split_projection
     [of "[(''cats'', [Training \<mapsto> [1, 2], Validation \<mapsto> [], Testing \<mapsto> [3::nat]]),
           (''dogs'', [Training \<mapsto> [4], Validation \<mapsto> [5, 6], Testing \<mapsto> []])]" Validation]
    select_split_projection
     [of "[(''cats'', [Training \<mapsto> [1, 2], Validation \<mapsto> [], Testing \<mapsto> [3::nat]]),
           (''dogs'', [Training \<mapsto> [4]])]" Validation]
  by simp

subsection \<open>The index blocks of a SplitIndexer\<close>

lemma permutation_of_range_length:
  "permutation_of_range ind n \<Longrightarrow> length ind = nat n"
proof -
  assume "permutation_of_range ind n"
  then have "size (mset ind) = size (mset [0..n - 1])"
    by (simp add: permutation_of_range_def)
  then show ?thesis by simp
qed

lemma permutation_of_range_distinct:
  "permutation_of_range ind n \<Longrightarrow> distinct ind"
proof -
  assume "permutation_of_range ind n"
  then have "mset ind = mset [0..n - 1]"
    by (simp add: permutation_of_range_def)
  moreover have "distinct [0..n - 1]" by simp
  ultimately show ?thesis by (metis mset_eq_imp_distinct_iff)
qed

lemma select_train_indices_take:
  assumes "0 \<le> training_num self"
  shows "select_train_indices self ind = take (nat (training_num self)) ind"
  using assms by (simp add: select_train_indices_def py_slice_def slice_bound_def min_def)

lemma select_validation_indices_take:
  assumes "length ind = nat (total_num self)"
    and "0 \<le> training_num self" and "0 \<le> testing_num self"
    and "training_num self + testing_num self \<le> total_num self"
  shows "select_validation_indices self ind =
     (if validation_num self \<noteq> 0
      then take (nat (total_num self - testing_num self - training_num self))
             (drop (nat (training_num self)) ind)
      else [])"
proof (cases "testing_num self = 0")
  case True
  then show ?thesis
    using assms
    by (simp add: select_validation_indices_def py_slice_def slice_bound_def min_def nat_diff_distrib)
next
  case False
  with assms have neg: "neg_int64 (testing_num self) = - testing_num self" "- testing_num self < 0"
    by (simp_all add: neg_int64_def)
  have "nat (int (length ind) + - testing_num self) - nat (training_num self)
      = nat (total_num self - testing_num self - training_num self)"
    using assms by simp
  then show ?thesis
    using assms False neg
    by (simp add: select_validation_indices_def py_slice_def slice_bound_def min_def)
qed

lemma select_testing_indices_drop:
  assumes "length ind = nat (total_num self)"
    and "0 \<le> testing_num self" and "testing_num self \<le> total_num self"
  shows "select_testing_indices self ind =
     (if testing_num self \<noteq> 0 then drop (nat (total_num self - testing_num self)) ind else [])"
proof (cases "testing_num self = 0")
  case True
  then show ?thesis by (simp add: select_testing_indices_def)
next
  case False
  with assms have neg: "neg_int64 (testing_num self) = - testing_num self" "- testing_num self < 0"
    by (simp_all add: neg_int64_def)
  show ?thesis
    using assms False neg
    by (simp add: select_testing_indices_def py_slice_def slice_bound_def)
qed




text \<open>
  Claim C4. The result of \<open>select_shuffled_split_indices\<close> does not depend on the state
  of the global generator before the call: a second call, made in the state the first
  call left behind, returns what the first returned, and so does a call on any
  instance with the same \<open>total_num\<close> and counts, from any generator state. This holds
  for every split argument and every seed (a seed numpy refuses raises the same error
  both times).
\<close>

theorem select_shuffled_split_indices_reproducible:
  fixes R :: "'g np_random"
  shows "fst (select_shuffled_split_indices R self split s
            (snd (select_shuffled_split_indices R self split s g)))
         = fst (select_shuffled_split_indices R self split s g)
    \<and> (total_num self' = total_num self \<and> training_num self' = training_num self
         \<and> validation_num self' = validation_num self \<and> testing_num self' = testing_num self
        \<longrightarrow> fst (select_shuffled_split_indices R self' split s g')
            = fst (select_shuffled_split_indices R self split s g))"
  by (auto simp add: select_shuffled_split_indices_def select_train_indices_def
      select_validation_indices_def select_testing_indices_def
      split: sum.splits prod.splits)

theorem select_shuffled_split_indices_reproducible_witness:
  "fst (select_shuffled_split_indices
          \<lparr>np_seed = Inr, np_permutation = (\<lambda>n g. (map (\<lambda>i. (i + g) mod n) [0..n - 1], g + 1))\<rparr>
          \<lparr>total_num = 10, normalised_split = [], training_percentage = NaN,
            validation_percentage = NaN, testing_percentage = NaN,
            training_num = 7, validation_num = 2, testing_num = 1\<rparr> (Member Training) 4 99)
   = fst (select_shuffled_split_indices
          \<lparr>np_seed = Inr, np_permutation = (\<lambda>n g. (map (\<lambda>i. (i + g) mod n) [0..n - 1], g + 1))\<rparr>
          \<lparr>total_num = 10, normalised_split = [Finite 1], training_percentage = PosInf,
            validation_percentage = NaN, testing_percentage = NaN,
            training_num = 7, validation_num = 2, testing_num = 1\<rparr> (Member Training) 4 5)"
  using select_shuffled_split_indices_reproducible
    [of "\<lparr>np_seed = Inr, np_permutation = (\<lambda>n g. (map (\<lambda>i. (i + g) mod n) [0..n - 1], g + 1))\<rparr>"
        "\<lparr>total_num = 10, normalised_split = [Finite 1], training_percentage = PosInf,
            validation_percentage = NaN, testing_percentage = NaN,
            training_num = 7, validation_num = 2, testing_num = 1\<rparr>"
        "Member Training" 4 5
        "\<lparr>total_num = 10, normalised_split = [], training_percentage = NaN,
            validation_percentage = NaN, testing_percentage = NaN,
            training_num = 7, validation_num = 2, testing_num = 1\<rparr>" 99]
  by simp



subsection \<open>The constructor at the examples, and at zero weights\<close>

lemmas SplitIndexer_init_eval = SplitIndexer_init_def unnormalised_def float_of_int_def
  fl_round_evals floor_numeral_fraction

lemma SplitIndexer_init_10_1_1_1:
  "SplitIndexer_init invalid_cast 10 (Finite 1) (Finite 1) (Finite 1)
   = \<lparr>total_num = 10,
      normalised_split =
        [Finite (6004799503160661 / 18014398509481984),
         Finite (6004799503160661 / 18014398509481984),
         Finite (6004799503160661 / 18014398509481984)],
      training_percentage = Finite (6004799503160661 / 18014398509481984),
      validation_percentage = Finite (6004799503160661 / 18014398509481984),
      testing_percentage = Finite (6004799503160661 / 18014398509481984),
      training_num = 3, validation_num = 3, testing_num = 3\<rparr>"
  by (simp add: SplitIndexer_init_eval)

lemma SplitIndexer_init_5_1_0_1:
  "SplitIndexer_init invalid_cast 5 (Finite 1) (Finite 0) (Finite 1)
   = \<lparr>total_num = 5,
      normalised_split = [Finite (1 / 2), Finite 0, Finite (1 / 2)],
      training_percentage = Finite (1 / 2),
      validation_percentage = Finite 0,
      testing_percentage = Finite (1 / 2),
      training_num = 2, validation_num = 0, testing_num = 2\<rparr>"
  by (simp add: SplitIndexer_init_eval)

lemma SplitIndexer_init_100:
  "SplitIndexer_init invalid_cast 100 (fl_round (7 / 10)) (fl_round (2 / 10)) (fl_round (1 / 10))
   = \<lparr>total_num = 100,
      normalised_split =
        [Finite (6305039478318695 / 9007199254740992),
         Finite (7205759403792795 / 36028797018963968),
         Finite (7205759403792795 / 72057594037927936)],
      training_percentage = Finite (6305039478318695 / 9007199254740992),
      validation_percentage = Finite (7205759403792795 / 36028797018963968),
      testing_percentage = Finite (7205759403792795 / 72057594037927936),
      training_num = 70, validation_num = 20, testing_num = 10\<rparr>"
  by (simp add: SplitIndexer_init_eval)

lemma SplitIndexer_init_big:
  "SplitIndexer_init invalid_cast 18014398509481984 (Finite 1) (Finite 1) (Finite (1 / 9007199254740992))
   = \<lparr>total_num = 18014398509481984,
      normalised_split = [Finite (1 / 2), Finite (1 / 2), Finite (1 / 18014398509481984)],
      training_percentage = Finite (1 / 2),
      validation_percentage = Finite (1 / 2),
      testing_percentage = Finite (1 / 18014398509481984),
      training_num = 9007199254740992, validation_num = 9007199254740992, testing_num = 1\<rparr>"
  by (simp add: SplitIndexer_init_eval)

lemma SplitIndexer_init_49:
  "SplitIndexer_init invalid_cast 49 (Finite 1) (Finite 48) (Finite 0)
   = \<lparr>total_num = 49,
      normalised_split = [Finite (5882252574524729 / 288230376151711744),
         Finite (4411689430893547 / 4503599627370496), Finite 0],
      training_percentage = Finite (5882252574524729 / 288230376151711744),
      validation_percentage = Finite (4411689430893547 / 4503599627370496),
      testing_percentage = Finite 0,
      training_num = 0, validation_num = 48, testing_num = 0\<rparr>"
  by (simp add: SplitIndexer_init_eval)

text \<open>
  Claim C6, as amended. With all three weights zero the constructor does not fail:
  \<open>0 / 0\<close> is NaN in numpy (a \<^verbatim>\<open>RuntimeWarning\<close>, no exception), so every normalised
  proportion is NaN, and every count is what the platform's cast to int64 makes of NaN.
\<close>

theorem SplitIndexer_init_zero_weights:
  "SplitIndexer_init invalid_cast n (Finite 0) (Finite 0) (Finite 0)
   = \<lparr>total_num = n, normalised_split = [NaN, NaN, NaN],
      training_percentage = NaN, validation_percentage = NaN, testing_percentage = NaN,
      training_num = invalid_cast NaN, validation_num = invalid_cast NaN,
      testing_num = invalid_cast NaN\<rparr>"
  by (simp add: SplitIndexer_init_def unnormalised_def fl_round_0)

text \<open>
  The claim as stated (construction fails with a division by zero) does not hold: on
  x86-64, \<^verbatim>\<open>SplitIndexer(10, 0.0, 0.0, 0.0)\<close> is constructed, with these attributes.
\<close>

theorem SplitIndexer_init_zero_weights_counterexample:
  "SplitIndexer_init (\<lambda>a. - (2 ^ 63)) 10 (Finite 0) (Finite 0) (Finite 0)
   = \<lparr>total_num = 10, normalised_split = [NaN, NaN, NaN],
      training_percentage = NaN, validation_percentage = NaN, testing_percentage = NaN,
      training_num = - (2 ^ 63), validation_num = - (2 ^ 63), testing_num = - (2 ^ 63)\<rparr>"
  by (simp add: SplitIndexer_init_def unnormalised_def fl_round_0)

subsection \<open>Where the indices left over by flooring go\<close>

text \<open>
  Claim C5 as stated fails. \<^verbatim>\<open>SplitIndexer(10, 1.0, 1.0, 1.0)\<close> has the counts
  \<open>(3, 3, 3)\<close>. Of the permutation \<open>9, 8, \<dots>, 0\<close> the entry at position 6 (the index 3)
  lies behind the first three entries and the next three, and before the last
  three; it is returned in the Validation list, which has four entries.
\<close>

theorem shuffled_indices_leftover_counterexample:
  "training_num (SplitIndexer_init (\<lambda>a. - (2 ^ 63)) 10 (Finite 1) (Finite 1) (Finite 1)) = 3
   \<and> validation_num (SplitIndexer_init (\<lambda>a. - (2 ^ 63)) 10 (Finite 1) (Finite 1) (Finite 1)) = 3
   \<and> testing_num (SplitIndexer_init (\<lambda>a. - (2 ^ 63)) 10 (Finite 1) (Finite 1) (Finite 1)) = 3
   \<and> shuffled_indices \<lparr>np_seed = Inr, np_permutation = (\<lambda>n g. (rev [0..n - 1], g + 1))\<rparr>
        (SplitIndexer_init (\<lambda>a. - (2 ^ 63)) 10 (Finite 1) (Finite 1) (Finite 1)) (0::int)
      = ([(Training, [9, 8, 7]), (Validation, [6, 5, 4, 3]), (Testing, [2, 1, 0])], 1)"
proof -
  have ind: "[0..(9::int)] = [0, 1, 2, 3, 4, 5, 6, 7, 8, 9]"
    by (simp add: upto.simps)
  show ?thesis
    unfolding SplitIndexer_init_10_1_1_1
    by (simp add: shuffled_indices_def select_train_indices_def select_validation_indices_def
        select_testing_indices_def py_slice_def slice_bound_def neg_int64_def ind)
qed

lemma distinct_nth_notin_take:
  assumes "distinct xs" and "a \<le> i" and "i < length xs"
  shows "xs ! i \<notin> set (take a xs)"
proof
  assume "xs ! i \<in> set (take a xs)"
  then obtain j where j: "j < length (take a xs)" "take a xs ! j = xs ! i"
    by (auto simp add: in_set_conv_nth)
  then have "j < a" "j < length xs" "xs ! j = xs ! i" by simp_all
  with assms show False by (simp add: nth_eq_iff_index_eq)
qed

lemma distinct_nth_notin_drop:
  assumes "distinct xs" and "i < k"
  shows "xs ! i \<notin> set (drop k xs)"
proof
  assume "xs ! i \<in> set (drop k xs)"
  then obtain j where j: "j < length (drop k xs)" "drop k xs ! j = xs ! i"
    by (auto simp add: in_set_conv_nth)
  then have "k + j < length xs" "xs ! (k + j) = xs ! i" by simp_all
  moreover have "i < length xs" using assms(2) \<open>k + j < length xs\<close> by simp
  ultimately show False using assms by (simp add: nth_eq_iff_index_eq)
qed

text \<open>
  Claim C5, as amended. Under the hypotheses of C7: when \<open>validation_num = 0\<close>, the
  entries of the permutation at the positions from \<open>training_num\<close> up to
  \<open>total_num - testing_num\<close> are in none of the three returned lists; when
  \<open>validation_num \<noteq> 0\<close>, nothing is left over: the Validation list takes every entry
  between the Training and the Testing block, and the three lists together are the
  whole permutation.
\<close>

theorem shuffled_indices_leftover:
  fixes R :: "'g np_random"
  assumes "np_permutation R (total_num self) g = (ind, g')"
    and "permutation_of_range ind (total_num self)"
    and "0 \<le> training_num self" and "0 \<le> validation_num self" and "0 \<le> testing_num self"
    and "training_num self + validation_num self + testing_num self \<le> total_num self"
  shows "\<exists>train valid test.
      shuffled_indices R self g = ([(Training, train), (Validation, valid), (Testing, test)], g')
    \<and> (validation_num self = 0 \<longrightarrow>
          (\<forall>i. nat (training_num self) \<le> i \<and> i < nat (total_num self - testing_num self)
             \<longrightarrow> ind ! i \<notin> set train \<union> set valid \<union> set test))
    \<and> (validation_num self \<noteq> 0 \<longrightarrow> train @ valid @ test = ind)"
proof -
  let ?tr = "nat (training_num self)"
  let ?m = "nat (total_num self - testing_num self - training_num self)"
  let ?k = "nat (total_num self - testing_num self)"
  have len: "length ind = nat (total_num self)"
    using assms(2) by (rule permutation_of_range_length)
  have dist: "distinct ind"
    using assms(2) by (rule permutation_of_range_distinct)
  have train: "select_train_indices self ind = take ?tr ind"
    using assms(3) by (rule select_train_indices_take)
  have valid: "select_validation_indices self ind =
      (if validation_num self \<noteq> 0 then take ?m (drop ?tr ind) else [])"
    using select_validation_indices_take [OF len assms(3) assms(5)] assms(4,6) by auto
  have test: "select_testing_indices self ind =
      (if testing_num self \<noteq> 0 then drop ?k ind else [])"
    using select_testing_indices_drop [OF len assms(5)] assms(3,4,5,6) by auto
  have k: "?k \<le> length ind" "?tr + ?m = ?k" using assms(3-6) len by simp_all
  have drop_all: "testing_num self = 0 \<Longrightarrow> drop ?k ind = []"
    using len by simp
  have shuffled: "shuffled_indices R self g =
      ([(Training, select_train_indices self ind),
        (Validation, select_validation_indices self ind),
        (Testing, select_testing_indices self ind)], g')"
    using assms(1) by (simp add: shuffled_indices_def)
  have none: "ind ! i \<notin> set (select_train_indices self ind)
        \<union> set (select_validation_indices self ind) \<union> set (select_testing_indices self ind)"
    if "validation_num self = 0" and "?tr \<le> i" and "i < ?k" for i
  proof -
    have "i < length ind" using that(3) k(1) by simp
    then have "ind ! i \<notin> set (take ?tr ind)"
      using dist that(2) by (intro distinct_nth_notin_take)
    moreover have "ind ! i \<notin> set (drop ?k ind)"
      using dist that(3) by (rule distinct_nth_notin_drop)
    ultimately show ?thesis
      using that(1) by (simp add: train valid test)
  qed
  have all: "select_train_indices self ind @ select_validation_indices self ind
        @ select_testing_indices self ind = ind"
    if "validation_num self \<noteq> 0"
  proof -
    have "take ?tr ind @ take ?m (drop ?tr ind) = take ?k ind"
      using k(2) by (metis take_add)
    moreover have "(if testing_num self \<noteq> 0 then drop ?k ind else []) = drop ?k ind"
      using drop_all by simp
    ultimately show ?thesis
      using that by (simp add: train valid test flip: append_assoc)
  qed
  show ?thesis
    using shuffled none all by blast
qed

theorem shuffled_indices_leftover_witness:
  "permutation_of_range [4, 3, 2, 1, 0] 5
   \<and> validation_num (SplitIndexer_init (\<lambda>a. - (2 ^ 63)) 5 (Finite 1) (Finite 0) (Finite 1)) = 0
   \<and> (\<exists>train valid test.
        shuffled_indices \<lparr>np_seed = Inr, np_permutation = (\<lambda>n g. (rev [0..n - 1], g + 1))\<rparr>
          (SplitIndexer_init (\<lambda>a. - (2 ^ 63)) 5 (Finite 1) (Finite 0) (Finite 1)) (0::int)
        = ([(Training, train), (Validation, valid), (Testing, test)], 1)
      \<and> [4, 3, 2, 1, 0] ! 2 \<notin> set train \<union> set valid \<union> set test)"
proof -
  let ?R = "\<lparr>np_seed = Inr, np_permutation = (\<lambda>n g. (rev [0..n - 1], g + (1::int)))\<rparr>"
  let ?self = "SplitIndexer_init (\<lambda>a. - (2 ^ 63)) 5 (Finite 1) (Finite 0) (Finite 1)"
  have ind: "[0..(4::int)] = [0, 1, 2, 3, 4]"
    by (simp add: upto.simps)
  have 1: "np_permutation ?R (total_num ?self) 0 = ([4, 3, 2, 1, 0], 1)"
    by (simp add: SplitIndexer_init_5_1_0_1 ind)
  have 2: "permutation_of_range [4, 3, 2, 1, 0] (total_num ?self)"
    unfolding permutation_of_range_def by (simp add: SplitIndexer_init_5_1_0_1 ind)
  have 3: "0 \<le> training_num ?self" "0 \<le> validation_num ?self" "0 \<le> testing_num ?self"
    "training_num ?self + validation_num ?self + testing_num ?self \<le> total_num ?self"
    by (simp_all add: SplitIndexer_init_5_1_0_1)
  have 4: "validation_num ?self = 0" "total_num ?self = 5"
    "nat (training_num ?self) \<le> 2 \<and> 2 < nat (total_num ?self - testing_num ?self)"
    by (simp_all add: SplitIndexer_init_5_1_0_1)
  from shuffled_indices_leftover [OF 1 2 3] 4(1,3)
  have "\<exists>train valid test.
        shuffled_indices ?R ?self 0 = ([(Training, train), (Validation, valid), (Testing, test)], 1)
      \<and> [4, 3, 2, 1, 0] ! 2 \<notin> set train \<union> set valid \<union> set test"
    by blast
  with 2 4(1,2) show ?thesis by simp
qed

subsection \<open>The pseudo-percentage of a digest\<close>








subsection \<open>train\_valid\_test\_split, category by category\<close>











subsection \<open>The pattern and the category label\<close>







subsection \<open>The examples of the hash splitter\<close>







subsection \<open>Claims on the hash splitter\<close>







subsection \<open>The assignment of one item\<close>







end
